theory Spec2Isabelle
  imports Complex_Main "HOL-Library.AList"
begin

section \<open>Data model\<close>

text \<open>
  A shallow embedding of \<^verbatim>\<open>chython/reactor/base.py\<close> (class \<^verbatim>\<open>BaseReactor\<close>).
  Python dictionaries are association lists with distinct keys, kept in insertion
  order (the order Python iterates them in); \<open>map_of\<close> is the lookup and
  \<open>AList.update\<close> the assignment \<^verbatim>\<open>d[k] = v\<close> (an existing key keeps its place, a
  new key goes last). Atom identifiers are natural numbers. Every \<^verbatim>\<open>raise\<close> of the
  source and every failing dictionary lookup is a value of type \<open>error\<close>.
\<close>

type_synonym atom_id = nat

text \<open>
  \<open>KeyError\<close> is a failed dictionary lookup. The three \<^verbatim>\<open>ValueError\<close>s are the
  one of line 97 (an \<^verbatim>\<open>AnyElement\<close> without a matched atom), the one of line 114 (a
  query element with several hydrogen counts) and the one \<^verbatim>\<open>max\<close> raises on an empty
  atom table (line 80).
\<close>

datatype error = KeyError | ValueError_AnyElement | ValueError_hydrogens | ValueError_max

record atom =
  atomic_number :: nat
  isotope :: "nat option"
  charge :: int
  is_radical :: bool
  implicit_hydrogens :: "nat option"
  stereo :: "bool option"
  atom_x :: real
  atom_y :: real

record bond =
  bond_order :: nat
  bond_stereo :: "bool option"

type_synonym atom_table = "(atom_id \<times> atom) list"
type_synonym bond_table = "(atom_id \<times> (atom_id \<times> bond) list) list"
type_synonym mapping = "(atom_id \<times> atom_id) list"

record molecule =
  atoms :: atom_table
  bonds :: bond_table

text \<open>
  The replacement template. Its atoms are of the three classes the patcher tells apart
  with \<^verbatim>\<open>isinstance\<close>; \<^verbatim>\<open>QueryElement.implicit_hydrogens\<close> is a tuple of alternatives,
  \<^verbatim>\<open>Element.implicit_hydrogens\<close> a count or \<^verbatim>\<open>None\<close>. A template bond has one order
  (\<^verbatim>\<open>int(rb)\<close>; the constructor refuses a query bond with several) and a stereo label.
\<close>

datatype template_atom =
    AnyElement (ra_charge: int) (ra_is_radical: bool) (ra_stereo: "bool option")
  | QueryElement (ra_atomic_number: nat) (ra_isotope: "nat option") (ra_charge: int)
      (ra_is_radical: bool) (ra_stereo: "bool option") (ra_hydrogens: "nat list")
  | Element (ra_atomic_number: nat) (ra_isotope: "nat option") (ra_charge: int)
      (ra_is_radical: bool) (ra_stereo: "bool option") (ra_implicit: "nat option")
      (ra_x: real) (ra_y: real)

record template_bond =
  tb_order :: nat
  tb_stereo :: "bool option"

record template =
  t_atoms :: "(atom_id \<times> template_atom) list"
  t_bonds :: "(atom_id \<times> (atom_id \<times> template_bond) list) list"

text \<open>
  The reactor object: \<open>to_delete_ids\<close> is \<^verbatim>\<open>self._to_delete\<close> (a set of pattern atom
  identifiers, or the empty tuple), listed without repetition.
\<close>

record reactor =
  to_delete_ids :: "atom_id list"
  replacement :: template
  fix_rings :: bool
  fix_tautomers :: bool

text \<open>
  Line 36 of \<^verbatim>\<open>__init__\<close>: the unmasked pattern atoms that are not atoms of the
  replacement, when \<^verbatim>\<open>delete_atoms\<close> is set. The pattern is given by its atoms, each
  with its \<^verbatim>\<open>masked\<close> flag.
\<close>

definition init ::
  "(atom_id \<times> bool) list \<Rightarrow> template \<Rightarrow> bool \<Rightarrow> bool \<Rightarrow> bool \<Rightarrow> reactor" where
  "init pattern repl delete_atoms fix_r fix_t =
     \<lparr>to_delete_ids =
        (if delete_atoms
         then filter (\<lambda>n. n \<notin> fst ` set (t_atoms repl))
                (remdups (map fst (filter (\<lambda>(n, masked). \<not> masked) pattern)))
         else []),
      replacement = repl, fix_rings = fix_r, fix_tautomers = fix_t\<rparr>"

section \<open>The deletion set: \<^verbatim>\<open>BaseReactor._get_deleted\<close>\<close>

text \<open>
  The \<^verbatim>\<open>while stack: ... else: ...\<close> loop of lines 57--67. The Python list \<^verbatim>\<open>stack\<close> is
  the list \<open>stack\<close>: \<^verbatim>\<open>pop()\<close> takes the last element, \<^verbatim>\<open>extend\<close> appends. The result
  is \<open>(exhausted, seen, global_seen)\<close>: \<open>exhausted\<close> is \<open>True\<close> when the loop ran to
  its \<^verbatim>\<open>else\<close> clause (the stack emptied) and \<open>False\<close> when it left by \<^verbatim>\<open>break\<close>.
  \<^verbatim>\<open>bonds[current]\<close> on an atom without an adjacency entry raises \<^verbatim>\<open>KeyError\<close>.
\<close>

definition neighbours :: "bond_table \<Rightarrow> atom_id \<Rightarrow> atom_id list" where
  "neighbours bs a = (case map_of bs a of None \<Rightarrow> [] | Some ns \<Rightarrow> map fst ns)"

definition weight :: "bond_table \<Rightarrow> atom_id set \<Rightarrow> atom_id \<Rightarrow> nat" where
  "weight bs G a = (if a \<in> G then 2 + length (filter (\<lambda>v. v \<notin> G) (neighbours bs a)) else 1)"

function walk ::
  "bond_table \<Rightarrow> atom_id set \<Rightarrow> atom_id set \<Rightarrow> atom_id list \<Rightarrow> atom_id set \<Rightarrow> atom_id set
    \<Rightarrow> error + (bool \<times> atom_id set \<times> atom_id set)" where
  "walk bs remain to_delete stack seen global_seen =
     (if stack = [] then Inr (True, seen, global_seen)
      else
        let current = last stack; rest = butlast stack in
        if current \<in> remain then Inr (False, seen, global_seen)
        else if current \<in> to_delete then walk bs remain to_delete rest seen global_seen
        else
          (case map_of bs current of
             None \<Rightarrow> Inl KeyError
           | Some ns \<Rightarrow>
               walk bs remain to_delete
                 (rest @ filter (\<lambda>v. v \<notin> insert current global_seen) (map fst ns))
                 (insert current seen) (insert current global_seen)))"
  by pat_completeness auto
termination
proof (relation "measures
    [\<lambda>(bs, remain, to_delete, stack, seen, G). card (fst ` set bs - G),
     \<lambda>(bs, remain, to_delete, stack, seen, G). sum_list (map (weight bs G) stack)]",
    goal_cases)
  case 1
  then show ?case by simp
next
  case (2 bs remain to_delete stack seen G current rest)
  then have "stack = rest @ [current]" by (metis append_butlast_last_id)
  then show ?case by (simp add: weight_def)
next
  case (3 bs remain to_delete stack seen G current rest ns)
  then have st: "stack = rest @ [current]" by (metis append_butlast_last_id)
  from 3 have mo: "map_of bs current = Some ns" by simp
  then have key: "current \<in> fst ` set bs" by (metis map_of_SomeD image_eqI fst_conv)
  show ?case
  proof (cases "current \<in> G")
    case True
    then have G: "insert current G = G" by auto
    have w: "\<And>v. v \<notin> G \<Longrightarrow> weight bs G v = 1" by (simp add: weight_def)
    have "sum_list (map (weight bs G) (filter (\<lambda>v. v \<notin> G) (map fst ns)))
        = length (filter (\<lambda>v. v \<notin> G) (map fst ns))"
      by (induction ns) (auto simp: w)
    then show ?thesis using True mo by (simp add: G st weight_def neighbours_def filter_map)
  next
    case False
    have "card (fst ` set bs - insert current G) < card (fst ` set bs - G)"
      by (rule psubset_card_mono) (use key False in auto)
    then show ?thesis by simp
  qed
qed

declare walk.simps [simp del]

text \<open>
  The loop \<^verbatim>\<open>for n in bonds[x]\<close> of lines 51--67, over the state \<open>(delete, global_seen)\<close>.
  Each neighbour that is neither visited nor retained starts a walk; the walked atoms
  \<open>seen\<close> are committed to \<open>delete\<close> only when the walk ran to its \<^verbatim>\<open>else\<close> clause.
\<close>

fun branches ::
  "bond_table \<Rightarrow> atom_id set \<Rightarrow> atom_id set \<Rightarrow> atom_id list \<Rightarrow> atom_id set \<times> atom_id set
    \<Rightarrow> error + (atom_id set \<times> atom_id set)" where
  "branches bs remain to_delete [] st = Inr st"
| "branches bs remain to_delete (n # ns) (delete, global_seen) =
     (if n \<in> global_seen \<or> n \<in> remain then branches bs remain to_delete ns (delete, global_seen)
      else
        (case map_of bs n of
           None \<Rightarrow> Inl KeyError
         | Some bn \<Rightarrow>
             (case walk bs remain to_delete
                     (filter (\<lambda>v. v \<notin> insert n global_seen) (map fst bn))
                     {n} (insert n global_seen) of
                Inl e \<Rightarrow> Inl e
              | Inr (exhausted, seen, global_seen') \<Rightarrow>
                  branches bs remain to_delete ns
                    (if exhausted then delete \<union> seen else delete, global_seen'))))"

text \<open>The loop \<^verbatim>\<open>for x in to_delete\<close> of line 50.\<close>

fun deleted_loop ::
  "bond_table \<Rightarrow> atom_id set \<Rightarrow> atom_id set \<Rightarrow> atom_id list \<Rightarrow> atom_id set \<times> atom_id set
    \<Rightarrow> error + (atom_id set \<times> atom_id set)" where
  "deleted_loop bs remain to_delete [] st = Inr st"
| "deleted_loop bs remain to_delete (x # xs) st =
     (case map_of bs x of
        None \<Rightarrow> Inl KeyError
      | Some bx \<Rightarrow>
          (case branches bs remain to_delete (map fst bx) st of
             Inl e \<Rightarrow> Inl e
           | Inr st' \<Rightarrow> deleted_loop bs remain to_delete xs st'))"

text \<open>\<^verbatim>\<open>[mapping[x] for x in ids]\<close>: the first missing key raises \<^verbatim>\<open>KeyError\<close>.\<close>

fun lookup_all :: "mapping \<Rightarrow> atom_id list \<Rightarrow> error + atom_id list" where
  "lookup_all m [] = Inr []"
| "lookup_all m (k # ks) =
     (case map_of m k of
        None \<Rightarrow> Inl KeyError
      | Some v \<Rightarrow> (case lookup_all m ks of Inl e \<Rightarrow> Inl e | Inr vs \<Rightarrow> Inr (v # vs)))"

text \<open>
  \<^verbatim>\<open>_get_deleted\<close>, lines 41--70. Python does not fix the order in which the set
  \<^verbatim>\<open>to_delete\<close> is iterated; the model iterates it in the order of first insertion
  (\<open>remdups\<close>). The facts proved about \<open>deleted_loop\<close> hold for every order.
\<close>

definition get_deleted :: "reactor \<Rightarrow> molecule \<Rightarrow> mapping \<Rightarrow> error + atom_id set" where
  "get_deleted self structure mapping =
     (if to_delete_ids self = [] then Inr {}
      else
        (case lookup_all mapping (to_delete_ids self) of
           Inl e \<Rightarrow> Inl e
         | Inr tds \<Rightarrow>
             (let to_delete = set tds;
                  remain = set (map snd mapping) - to_delete
              in case deleted_loop (bonds structure) remain to_delete (remdups tds) ({}, {}) of
                   Inl e \<Rightarrow> Inl e
                 | Inr (delete, global_seen) \<Rightarrow> Inr (to_delete \<union> delete))))"

section \<open>The patcher: \<^verbatim>\<open>BaseReactor._patcher\<close>\<close>

subsection \<open>What the patcher takes from the rest of the library\<close>

text \<open>
  Modelled from the spec: the classes \<^verbatim>\<open>Element\<close> and \<^verbatim>\<open>Bond\<close> are not among the
  sources. \<^verbatim>\<open>copy()\<close> keeps the hydrogen count and the stereo label only when asked to
  (\<^verbatim>\<open>copy(hydrogens=True, stereo=True)\<close> is the verbatim carry-over of line 145, while
  the atoms copied at line 89 are marked for a new label and get a new hydrogen count);
  a newly constructed element or bond has neither, and an element starts at the origin.
\<close>

definition copy_atom :: "bool \<Rightarrow> bool \<Rightarrow> atom \<Rightarrow> atom" where
  "copy_atom hydrogens with_stereo a =
     a\<lparr>implicit_hydrogens := (if hydrogens then implicit_hydrogens a else None),
       stereo := (if with_stereo then stereo a else None)\<rparr>"

definition new_element :: "nat \<Rightarrow> nat option \<Rightarrow> int \<Rightarrow> bool \<Rightarrow> atom" where
  "new_element z isot c r =
     \<lparr>atomic_number = z, isotope = isot, charge = c, is_radical = r,
      implicit_hydrogens = None, stereo = None, atom_x = 0, atom_y = 0\<rparr>"

definition copy_bond :: "bool \<Rightarrow> bond \<Rightarrow> bond" where
  "copy_bond with_stereo b = b\<lparr>bond_stereo := (if with_stereo then bond_stereo b else None)\<rparr>"

definition new_bond :: "nat \<Rightarrow> bond" where
  "new_bond k = \<lparr>bond_order = k, bond_stereo = None\<rparr>"

text \<open>
  Modelled from the spec: the graph routines the patcher calls are parameters. The
  stereocenter indices are dictionaries read off a container (tetrahedral centre to its
  ordered neighbours, allene centre and cis/trans terminal pair to their terminal
  substituents, of which some may be \<^verbatim>\<open>None\<close>; atom to the terminal pair of its cis/trans
  system). The three sign translations return the translated sign. \<open>calc_implicit\<close>
  returns the hydrogen count the routine stores in the atom. \<open>kekule\<close>, \<open>thiele\<close> and
  \<open>fix_stereo\<close> rewrite the container; \<open>thiele\<close> also reports whether it aromatized a
  ring. \<^verbatim>\<open>calc_labels\<close> recomputes labels this model does not hold and is left out.
\<close>

record externals =
  calc_implicit :: "molecule \<Rightarrow> atom_id \<Rightarrow> nat option"
  stereogenic_tetrahedrons :: "molecule \<Rightarrow> (atom_id \<times> atom_id list) list"
  stereogenic_allenes :: "molecule \<Rightarrow> (atom_id \<times> atom_id option list) list"
  stereogenic_cis_trans :: "molecule \<Rightarrow> ((atom_id \<times> atom_id) \<times> atom_id option list) list"
  stereo_cis_trans_terminals :: "molecule \<Rightarrow> (atom_id \<times> (atom_id \<times> atom_id)) list"
  translate_tetrahedron_sign :: "molecule \<Rightarrow> atom_id \<Rightarrow> atom_id list \<Rightarrow> bool option \<Rightarrow> bool"
  translate_allene_sign :: "molecule \<Rightarrow> atom_id \<Rightarrow> atom_id option list \<Rightarrow> bool option \<Rightarrow> bool"
  translate_cis_trans_sign ::
    "molecule \<Rightarrow> atom_id \<times> atom_id \<Rightarrow> atom_id option list \<Rightarrow> bool option \<Rightarrow> bool"
  kekule :: "molecule \<Rightarrow> molecule"
  thiele :: "bool \<Rightarrow> molecule \<Rightarrow> molecule \<times> bool"
  fix_stereo :: "molecule \<Rightarrow> molecule"

subsection \<open>Atoms of the replacement, lines 84--124\<close>

text \<open>
  The state of the assembly: the caller's \<^verbatim>\<open>mapping\<close> (mutated in place by line 105),
  \<^verbatim>\<open>max_atom\<close>, the tables \<^verbatim>\<open>natoms\<close> and \<^verbatim>\<open>nbonds\<close> of the new container and the two
  lists of atoms and bonds marked for a new stereo label.
\<close>

record assembly =
  cur_mapping :: mapping
  max_atom :: nat
  natoms :: atom_table
  nbonds :: bond_table
  stereo_atoms :: "atom_id list"
  stereo_bonds :: "(atom_id \<times> atom_id) list"

text \<open>
  \<^verbatim>\<open>if m := mapping.get(n)\<close>: the test is on the truth value of \<open>m\<close>, so a missing
  key and the identifier 0 both take the \<^verbatim>\<open>else\<close> branch.
\<close>

definition get_truthy :: "mapping \<Rightarrow> atom_id \<Rightarrow> atom_id option" where
  "get_truthy mapping n =
     (case map_of mapping n of None \<Rightarrow> None | Some m \<Rightarrow> if m = 0 then None else Some m)"

text \<open>Lines 123--124: \<^verbatim>\<open>natoms[m] = a; nbonds[m] = {}\<close>.\<close>

definition place :: "atom_id \<Rightarrow> atom \<Rightarrow> assembly \<Rightarrow> assembly" where
  "place m a st = st\<lparr>natoms := AList.update m a (natoms st), nbonds := AList.update m [] (nbonds st)\<rparr>"

text \<open>
  Lines 92--95 and 119--122: the stereo label of the template wins; without one, a
  labelled host atom is marked for translation.
\<close>

definition place_matched :: "atom_id \<Rightarrow> atom \<Rightarrow> bool option \<Rightarrow> atom \<Rightarrow> assembly \<Rightarrow> assembly" where
  "place_matched m a s sa st =
     (if s \<noteq> None then place m (a\<lparr>stereo := s\<rparr>) st
      else if stereo sa \<noteq> None then place m a (st\<lparr>stereo_atoms := stereo_atoms st @ [m]\<rparr>)
      else place m a st)"

text \<open>Lines 115--122: a query element or element matched to the host atom \<open>m\<close>.\<close>

definition existing_atom ::
  "atom_table \<Rightarrow> atom_id \<Rightarrow> atom \<Rightarrow> bool option \<Rightarrow> assembly \<Rightarrow> (error \<times> mapping) + assembly" where
  "existing_atom ats m a s st =
     (case map_of ats m of
        None \<Rightarrow> Inl (KeyError, cur_mapping st)
      | Some sa \<Rightarrow> Inr (place_matched m (a\<lparr>atom_x := atom_x sa, atom_y := atom_y sa\<rparr>) s sa st))"

text \<open>Lines 103--105: \<^verbatim>\<open>m = max_atom + 1; max_atom += 1; mapping[n] = m\<close>.\<close>

definition fresh_atom :: "atom_id \<Rightarrow> assembly \<Rightarrow> assembly" where
  "fresh_atom n st =
     st\<lparr>max_atom := max_atom st + 1,
        cur_mapping := AList.update n (max_atom st + 1) (cur_mapping st)\<rparr>"

text \<open>
  One pass of the loop body for the template atom \<open>n\<close>. An error is returned with the
  mapping as it is when the exception is raised.
\<close>

fun patch_atom ::
  "atom_table \<Rightarrow> atom_id \<Rightarrow> template_atom \<Rightarrow> assembly \<Rightarrow> (error \<times> mapping) + assembly" where
  "patch_atom ats n (AnyElement c r s) st =
     (case get_truthy (cur_mapping st) n of
        None \<Rightarrow> Inl (ValueError_AnyElement, cur_mapping st)
      | Some m \<Rightarrow>
          (case map_of ats m of
             None \<Rightarrow> Inl (KeyError, cur_mapping st)
           | Some sa \<Rightarrow>
               Inr (place_matched m ((copy_atom False False sa)\<lparr>charge := c, is_radical := r\<rparr>)
                      s sa st)))"
| "patch_atom ats n (QueryElement z isot c r s hs) st =
     (case get_truthy (cur_mapping st) n of
        None \<Rightarrow>
          (let st1 = fresh_atom n st; a = (new_element z isot c r)\<lparr>stereo := s\<rparr>
           in if length hs = 1 then Inr (place (max_atom st1) (a\<lparr>implicit_hydrogens := Some (hd hs)\<rparr>) st1)
              else if hs \<noteq> [] then Inl (ValueError_hydrogens, cur_mapping st1)
              else Inr (place (max_atom st1) a st1))
      | Some m \<Rightarrow> existing_atom ats m (new_element z isot c r) s st)"
| "patch_atom ats n (Element z isot c r s h px py) st =
     (case get_truthy (cur_mapping st) n of
        None \<Rightarrow>
          (let st1 = fresh_atom n st
           in Inr (place (max_atom st1)
                     ((new_element z isot c r)\<lparr>stereo := s, implicit_hydrogens := h,
                                               atom_x := px, atom_y := py\<rparr>) st1))
      | Some m \<Rightarrow> existing_atom ats m (new_element z isot c r) s st)"

fun atoms_loop ::
  "atom_table \<Rightarrow> (atom_id \<times> template_atom) list \<Rightarrow> assembly \<Rightarrow> (error \<times> mapping) + assembly" where
  "atoms_loop ats [] st = Inr st"
| "atoms_loop ats ((n, ra) # ras) st =
     (case patch_atom ats n ra st of
        Inl e \<Rightarrow> Inl e
      | Inr st' \<Rightarrow> atoms_loop ats ras st')"

subsection \<open>Bonds of the replacement, lines 127--140\<close>

text \<open>\<^verbatim>\<open>nbonds[n][m] = b\<close>: the row \<^verbatim>\<open>nbonds[n]\<close> must exist.\<close>

definition set_bond :: "atom_id \<Rightarrow> atom_id \<Rightarrow> bond \<Rightarrow> bond_table \<Rightarrow> error + bond_table" where
  "set_bond n m b nb =
     (case map_of nb n of
        None \<Rightarrow> Inl KeyError
      | Some row \<Rightarrow> Inr (AList.update n (AList.update m b row) nb))"

text \<open>
  Line 137: the stereo label of the host bond between \<open>n\<close> and \<open>m\<close>, \<open>None\<close> when
  there is no such bond or it has no label.
\<close>

definition host_bond_stereo :: "bond_table \<Rightarrow> atom_id \<Rightarrow> atom_id \<Rightarrow> bool option" where
  "host_bond_stereo bs n m =
     (case map_of bs n of
        None \<Rightarrow> None
      | Some sbn \<Rightarrow> (case map_of sbn m of None \<Rightarrow> None | Some sb \<Rightarrow> bond_stereo sb))"

text \<open>
  The inner loop over the row of the template atom mapped to \<open>n\<close>. The second
  direction of a bond takes the value stored for the first (the back-link).
\<close>

fun patch_bonds_row ::
  "bond_table \<Rightarrow> atom_id \<Rightarrow> (atom_id \<times> template_bond) list \<Rightarrow> assembly \<Rightarrow> error + assembly" where
  "patch_bonds_row bs n [] st = Inr st"
| "patch_bonds_row bs n ((m0, rb) # row) st =
     (case map_of (cur_mapping st) m0 of
        None \<Rightarrow> Inl KeyError
      | Some m \<Rightarrow>
          (case map_of (nbonds st) m of
             None \<Rightarrow> Inl KeyError
           | Some mrow \<Rightarrow>
               (case map_of mrow n of
                  Some back \<Rightarrow>
                    (case set_bond n m back (nbonds st) of
                       Inl e \<Rightarrow> Inl e
                     | Inr nb \<Rightarrow> patch_bonds_row bs n row (st\<lparr>nbonds := nb\<rparr>))
                | None \<Rightarrow>
                    (case set_bond n m ((new_bond (tb_order rb))\<lparr>bond_stereo := tb_stereo rb\<rparr>)
                            (nbonds st) of
                       Inl e \<Rightarrow> Inl e
                     | Inr nb \<Rightarrow>
                         patch_bonds_row bs n row
                           (if tb_stereo rb = None \<and> host_bond_stereo bs n m \<noteq> None
                            then st\<lparr>nbonds := nb, stereo_bonds := stereo_bonds st @ [(n, m)]\<rparr>
                            else st\<lparr>nbonds := nb\<rparr>)))))"

fun patch_bonds ::
  "bond_table \<Rightarrow> (atom_id \<times> (atom_id \<times> template_bond) list) list \<Rightarrow> assembly
    \<Rightarrow> error + assembly" where
  "patch_bonds bs [] st = Inr st"
| "patch_bonds bs ((n0, row) # rest) st =
     (case map_of (cur_mapping st) n0 of
        None \<Rightarrow> Inl KeyError
      | Some n \<Rightarrow>
          (case patch_bonds_row bs n row st of
             Inl e \<Rightarrow> Inl e
           | Inr st' \<Rightarrow> patch_bonds bs rest st'))"

subsection \<open>Atoms and bonds carried over from the host, lines 142--163\<close>

fun carry_atoms :: "atom_id set \<Rightarrow> atom_id set \<Rightarrow> atom_table \<Rightarrow> assembly \<Rightarrow> assembly" where
  "carry_atoms patched to_delete [] st = st"
| "carry_atoms patched to_delete ((n, a) # ats) st =
     carry_atoms patched to_delete ats
       (if n \<notin> patched \<and> n \<notin> to_delete then place n (copy_atom True True a) st else st)"

fun carry_bonds_row ::
  "atom_id set \<Rightarrow> atom_id set \<Rightarrow> atom_id \<Rightarrow> (atom_id \<times> bond) list \<Rightarrow> assembly \<Rightarrow> error + assembly" where
  "carry_bonds_row patched to_delete n [] st = Inr st"
| "carry_bonds_row patched to_delete n ((m, b) # row) st =
     (if m \<in> to_delete \<or> (n \<in> patched \<and> m \<in> patched)
      then carry_bonds_row patched to_delete n row st
      else
        (case map_of (nbonds st) m of
           None \<Rightarrow> Inl KeyError
         | Some mrow \<Rightarrow>
             (case map_of mrow n of
                Some back \<Rightarrow>
                  (case set_bond n m back (nbonds st) of
                     Inl e \<Rightarrow> Inl e
                   | Inr nb \<Rightarrow> carry_bonds_row patched to_delete n row (st\<lparr>nbonds := nb\<rparr>))
              | None \<Rightarrow>
                  (if bond_stereo b \<noteq> None \<and> (n \<in> patched \<or> m \<in> patched)
                   then
                     (case set_bond n m (copy_bond False b) (nbonds st) of
                        Inl e \<Rightarrow> Inl e
                      | Inr nb \<Rightarrow>
                          carry_bonds_row patched to_delete n row
                            (st\<lparr>nbonds := nb, stereo_bonds := stereo_bonds st @ [(n, m)]\<rparr>))
                   else
                     (case set_bond n m (copy_bond True b) (nbonds st) of
                        Inl e \<Rightarrow> Inl e
                      | Inr nb \<Rightarrow> carry_bonds_row patched to_delete n row (st\<lparr>nbonds := nb\<rparr>))))))"

fun carry_bonds ::
  "atom_id set \<Rightarrow> atom_id set \<Rightarrow> bond_table \<Rightarrow> assembly \<Rightarrow> error + assembly" where
  "carry_bonds patched to_delete [] st = Inr st"
| "carry_bonds patched to_delete ((n, row) # rest) st =
     (if n \<in> to_delete then carry_bonds patched to_delete rest st
      else
        (case carry_bonds_row patched to_delete n row st of
           Inl e \<Rightarrow> Inl e
         | Inr st' \<Rightarrow> carry_bonds patched to_delete rest st'))"

text \<open>
  Lines 80--163 together. \<^verbatim>\<open>patched_atoms = set(new)\<close> is the key set of \<^verbatim>\<open>natoms\<close>
  after the two template loops. The mapping changes in the atom loop only, so a later
  error leaves the mapping that loop produced.
\<close>

definition initial_assembly :: "molecule \<Rightarrow> mapping \<Rightarrow> assembly" where
  "initial_assembly structure mapping =
     \<lparr>cur_mapping = mapping, max_atom = Max (set (map fst (atoms structure))),
      natoms = [], nbonds = [], stereo_atoms = [], stereo_bonds = []\<rparr>"

definition carry_over :: "molecule \<Rightarrow> atom_id set \<Rightarrow> assembly \<Rightarrow> error + assembly" where
  "carry_over structure to_delete st =
     (let patched = set (map fst (natoms st))
      in carry_bonds patched to_delete (bonds structure)
           (carry_atoms patched to_delete (atoms structure) st))"

definition assemble ::
  "reactor \<Rightarrow> molecule \<Rightarrow> mapping \<Rightarrow> atom_id set \<Rightarrow> (error \<times> mapping) + assembly" where
  "assemble self structure mapping to_delete =
     (if atoms structure = [] then Inl (ValueError_max, mapping)
      else
        (case atoms_loop (atoms structure) (t_atoms (replacement self))
                (initial_assembly structure mapping) of
           Inl e \<Rightarrow> Inl e
         | Inr st1 \<Rightarrow>
             (case patch_bonds (bonds structure) (t_bonds (replacement self)) st1 of
                Inl e \<Rightarrow> Inl (e, cur_mapping st1)
              | Inr st2 \<Rightarrow>
                  (case carry_over structure to_delete st2 of
                     Inl e \<Rightarrow> Inl (e, cur_mapping st1)
                   | Inr st3 \<Rightarrow> Inr st3))))"

subsection \<open>Hydrogen counts, lines 165--167\<close>

text \<open>
  \<^verbatim>\<open>for n, a in new.atoms(): if a.implicit_hydrogens is None: new.calc_implicit(n)\<close>.
  The routine sets the count of the atom \<open>n\<close> of the container it is called on.
\<close>

fun calc_implicit_loop :: "externals \<Rightarrow> atom_id list \<Rightarrow> molecule \<Rightarrow> molecule" where
  "calc_implicit_loop ext [] g = g"
| "calc_implicit_loop ext (n # ns) g =
     calc_implicit_loop ext ns
       (case map_of (atoms g) n of
          None \<Rightarrow> g
        | Some a \<Rightarrow>
            if implicit_hydrogens a = None
            then g\<lparr>atoms := AList.update n (a\<lparr>implicit_hydrogens := calc_implicit ext g n\<rparr>) (atoms g)\<rparr>
            else g)"

definition post_assembly :: "externals \<Rightarrow> assembly \<Rightarrow> molecule" where
  "post_assembly ext st =
     calc_implicit_loop ext (map fst (natoms st)) \<lparr>atoms = natoms st, bonds = nbonds st\<rparr>"

subsection \<open>Translation of the stereo labels, lines 170--191\<close>

text \<open>
  The stereocenter indices are cached properties of the two containers: \<open>new0\<close> is the
  new container as the hydrogen loop left it, on which the indices of the new graph are
  read. \<^verbatim>\<open>natoms[n]._stereo = s\<close> changes the atom \<open>n\<close> of the new container \<open>g\<close>. Two
  dictionary views of keys are compared as sets.
\<close>

definition set_stereo :: "atom_id \<Rightarrow> bool \<Rightarrow> molecule \<Rightarrow> error + molecule" where
  "set_stereo n s g =
     (case map_of (atoms g) n of
        None \<Rightarrow> Inl KeyError
      | Some a \<Rightarrow> Inr (g\<lparr>atoms := AList.update n (a\<lparr>stereo := Some s\<rparr>) (atoms g)\<rparr>))"

definition translate_atom ::
  "externals \<Rightarrow> molecule \<Rightarrow> molecule \<Rightarrow> atom_id \<Rightarrow> molecule \<Rightarrow> error + molecule" where
  "translate_atom ext structure new0 n g =
     (if n \<in> set (map fst (stereogenic_tetrahedrons ext new0)) then
        (case map_of (bonds structure) n of
           None \<Rightarrow> Inl KeyError
         | Some brow \<Rightarrow>
             (case map_of (bonds g) n of
                None \<Rightarrow> Inl KeyError
              | Some nrow \<Rightarrow>
                  if set (map fst brow) \<noteq> set (map fst nrow) then Inr g
                  else
                    (case map_of (stereogenic_tetrahedrons ext structure) n of
                       None \<Rightarrow> Inl KeyError
                     | Some env \<Rightarrow>
                         (case map_of (atoms structure) n of
                            None \<Rightarrow> Inl KeyError
                          | Some sa \<Rightarrow>
                              set_stereo n (translate_tetrahedron_sign ext new0 n env (stereo sa)) g))))
      else
        (case map_of (stereogenic_allenes ext new0) n of
           None \<Rightarrow> Inr g
         | Some new_terminals \<Rightarrow>
             (case map_of (stereogenic_allenes ext structure) n of
                None \<Rightarrow> Inl KeyError
              | Some old_terminals \<Rightarrow>
                  if set new_terminals \<noteq> set old_terminals then Inr g
                  else
                    (case map_of (atoms structure) n of
                       None \<Rightarrow> Inl KeyError
                     | Some sa \<Rightarrow>
                         set_stereo n
                           (translate_allene_sign ext new0 n (take 2 old_terminals) (stereo sa)) g))))"

fun translate_atoms ::
  "externals \<Rightarrow> molecule \<Rightarrow> molecule \<Rightarrow> atom_id list \<Rightarrow> molecule \<Rightarrow> error + molecule" where
  "translate_atoms ext structure new0 [] g = Inr g"
| "translate_atoms ext structure new0 (n # ns) g =
     (case translate_atom ext structure new0 n g of
        Inl e \<Rightarrow> Inl e
      | Inr g' \<Rightarrow> translate_atoms ext structure new0 ns g')"

text \<open>
  Lines 186--191. The sign that \<^verbatim>\<open>_translate_cis_trans_sign\<close> returns is bound to \<open>s\<close>;
  the source does not use it, and the container goes on as it was.
\<close>

definition translate_bond ::
  "externals \<Rightarrow> molecule \<Rightarrow> molecule \<Rightarrow> atom_id \<times> atom_id \<Rightarrow> molecule \<Rightarrow> error + molecule" where
  "translate_bond ext structure new0 nm g =
     (case map_of (stereo_cis_trans_terminals ext new0) (fst nm) of
        None \<Rightarrow> Inr g
      | Some t12 \<Rightarrow>
          if map_of (stereo_cis_trans_terminals ext new0) (snd nm) \<noteq> Some t12 then Inr g
          else
            (case map_of (stereogenic_cis_trans ext new0) t12 of
               None \<Rightarrow> Inl KeyError
             | Some new_terminals \<Rightarrow>
                 (case map_of (stereogenic_cis_trans ext structure) t12 of
                    None \<Rightarrow> Inl KeyError
                  | Some old_terminals \<Rightarrow>
                      if set new_terminals \<noteq> set old_terminals then Inr g
                      else
                        (case map_of (bonds structure) (fst nm) of
                           None \<Rightarrow> Inl KeyError
                         | Some row \<Rightarrow>
                             (case map_of row (snd nm) of
                                None \<Rightarrow> Inl KeyError
                              | Some b \<Rightarrow>
                                  (let s = translate_cis_trans_sign ext new0 t12
                                             (take 2 old_terminals) (bond_stereo b)
                                   in Inr g))))))"

fun translate_bonds ::
  "externals \<Rightarrow> molecule \<Rightarrow> molecule \<Rightarrow> (atom_id \<times> atom_id) list \<Rightarrow> molecule \<Rightarrow> error + molecule" where
  "translate_bonds ext structure new0 [] g = Inr g"
| "translate_bonds ext structure new0 (nm # ps) g =
     (case translate_bond ext structure new0 nm g of
        Inl e \<Rightarrow> Inl e
      | Inr g' \<Rightarrow> translate_bonds ext structure new0 ps g')"

definition translate_stereo ::
  "externals \<Rightarrow> molecule \<Rightarrow> molecule \<Rightarrow> atom_id list \<Rightarrow> (atom_id \<times> atom_id) list
    \<Rightarrow> error + molecule" where
  "translate_stereo ext structure new0 marked_atoms marked_bonds =
     (case translate_atoms ext structure new0 marked_atoms new0 of
        Inl e \<Rightarrow> Inl e
      | Inr g \<Rightarrow> translate_bonds ext structure new0 marked_bonds g)"

subsection \<open>The last step, lines 193--198\<close>

text \<open>
  The routines are called for their effect on the new container; the model returns the
  container together with the calls made, in order. \<open>Thiele t\<close> is the call
  \<^verbatim>\<open>thiele(fix_tautomers=t)\<close>.
\<close>

datatype call = Kekule | Thiele bool | FixStereo

definition finalize :: "externals \<Rightarrow> bool \<Rightarrow> bool \<Rightarrow> molecule \<Rightarrow> molecule \<times> call list" where
  "finalize ext fix_r fix_t g =
     (if fix_r then
        (let g1 = kekule ext g; (g2, aromatized) = thiele ext fix_t g1
         in if \<not> aromatized then (fix_stereo ext g2, [Kekule, Thiele fix_t, FixStereo])
            else (g2, [Kekule, Thiele fix_t]))
      else (fix_stereo ext g, [FixStereo]))"

subsection \<open>\<^verbatim>\<open>_patcher\<close>\<close>

text \<open>
  The result is the new container or the error raised, together with the caller's
  mapping as the call leaves it.
\<close>

definition patcher ::
  "externals \<Rightarrow> reactor \<Rightarrow> molecule \<Rightarrow> mapping \<Rightarrow> (error + molecule) \<times> mapping" where
  "patcher ext self structure mapping =
     (case get_deleted self structure mapping of
        Inl e \<Rightarrow> (Inl e, mapping)
      | Inr to_delete \<Rightarrow>
          (case assemble self structure mapping to_delete of
             Inl (e, mapping') \<Rightarrow> (Inl e, mapping')
           | Inr st \<Rightarrow>
               (let new0 = post_assembly ext st
                in case translate_stereo ext structure new0 (stereo_atoms st) (stereo_bonds st) of
                     Inl e \<Rightarrow> (Inl e, cur_mapping st)
                   | Inr g \<Rightarrow>
                       (Inr (fst (finalize ext (fix_rings self) (fix_tautomers self) g)),
                        cur_mapping st))))"

section \<open>Notions used to state the properties of \<^verbatim>\<open>_get_deleted\<close>\<close>









text \<open>
  Scenario B of the specification: the host \<^verbatim>\<open>A-B-C\<close> with \<^verbatim>\<open>B-D\<close> and \<^verbatim>\<open>D-C\<close> (atoms
  1, 2, 3, 4), the pattern \<^verbatim>\<open>A, B, C\<close> matched on itself, and a replacement that keeps
  \<^verbatim>\<open>A\<close> and \<^verbatim>\<open>C\<close>.
\<close>

definition carbon :: "nat \<Rightarrow> atom" where
  "carbon h = \<lparr>atomic_number = 6, isotope = None, charge = 0, is_radical = False,
     implicit_hydrogens = Some h, stereo = None, atom_x = 0, atom_y = 0\<rparr>"

definition single :: bond where
  "single = \<lparr>bond_order = 1, bond_stereo = None\<rparr>"




section \<open>Stand-ins for the library routines and small molecules\<close>

text \<open>
  Concrete graph routines for the examples below, simple enough to evaluate: every atom
  with three or four neighbours is a tetrahedral centre with its neighbours in adjacency
  order, every double bond between \<open>n < m\<close> is a cis/trans system with terminals
  \<open>(n, m)\<close> and the other neighbours of its two atoms as substituents, there are no
  allenes, a sign is translated to itself, a carbon atom gets four hydrogens less its
  bond orders, \<open>kekule\<close> and \<open>fix_stereo\<close> leave the container alone and \<open>thiele\<close>
  leaves it alone and reports \<open>aromatized\<close>.
\<close>

definition others :: "molecule \<Rightarrow> atom_id \<Rightarrow> atom_id \<Rightarrow> atom_id option list" where
  "others g n m = map Some (filter (\<lambda>v. v \<noteq> m) (neighbours (bonds g) n))"

definition pick :: "'a option list \<Rightarrow> nat \<Rightarrow> 'a option" where
  "pick xs k = (if k < length xs then xs ! k else None)"

definition double_bonds :: "molecule \<Rightarrow> (atom_id \<times> atom_id) list" where
  "double_bonds g =
     concat (map (\<lambda>(n, row). map (\<lambda>(m, b). (n, m))
                    (filter (\<lambda>(m, b). bond_order b = 2 \<and> n < m) row)) (bonds g))"

definition demo_externals :: "bool \<Rightarrow> externals" where
  "demo_externals aromatized =
     \<lparr>calc_implicit = (\<lambda>g n. Some (4 - sum_list (map (\<lambda>(m, b). bond_order b)
                                      (case map_of (bonds g) n of None \<Rightarrow> [] | Some row \<Rightarrow> row)))),
      stereogenic_tetrahedrons =
        (\<lambda>g. map (\<lambda>(n, row). (n, map fst row))
               (filter (\<lambda>(n, row). length row = 3 \<or> length row = 4) (bonds g))),
      stereogenic_allenes = (\<lambda>g. []),
      stereogenic_cis_trans =
        (\<lambda>g. map (\<lambda>(n, m). ((n, m), [pick (others g n m) 0, pick (others g m n) 0,
                                      pick (others g n m) 1, pick (others g m n) 1]))
               (double_bonds g)),
      stereo_cis_trans_terminals =
        (\<lambda>g. concat (map (\<lambda>(n, m). [(n, (n, m)), (m, (n, m))]) (double_bonds g))),
      translate_tetrahedron_sign = (\<lambda>g n env s. s = Some True),
      translate_allene_sign = (\<lambda>g n env s. s = Some True),
      translate_cis_trans_sign = (\<lambda>g t env s. s = Some True),
      kekule = (\<lambda>g. g),
      thiele = (\<lambda>fix_t g. (g, aromatized)),
      fix_stereo = (\<lambda>g. g)\<rparr>"

text \<open>
  But-2-ene \<^verbatim>\<open>C-C=C-C\<close> (atoms 1 to 4) with a cis/trans label on its double bond, and
  two reactors without deletions: one whose replacement is the single atom matched on
  atom 2, and one whose replacement is the double bond itself, matched on atoms 2 and 3.
\<close>

definition labelled_double :: bond where
  "labelled_double = \<lparr>bond_order = 2, bond_stereo = Some True\<rparr>"

definition butene :: molecule where
  "butene =
     \<lparr>atoms = [(1, carbon 3), (2, carbon 1), (3, carbon 1), (4, carbon 3)],
      bonds = [(1, [(2, single)]),
               (2, [(1, single), (3, labelled_double)]),
               (3, [(2, labelled_double), (4, single)]),
               (4, [(3, single)])]\<rparr>"

definition one_atom_reactor :: reactor where
  "one_atom_reactor =
     init [(1, False)] \<lparr>t_atoms = [(1, AnyElement 0 False None)], t_bonds = [(1, [])]\<rparr>
       True False False"

definition double_bond_reactor :: reactor where
  "double_bond_reactor =
     init [(1, False), (2, False)]
       \<lparr>t_atoms = [(1, QueryElement 6 None 0 False None []), (2, QueryElement 6 None 0 False None [])],
        t_bonds = [(1, [(2, \<lparr>tb_order = 2, tb_stereo = None\<rparr>)]),
                   (2, [(1, \<lparr>tb_order = 2, tb_stereo = None\<rparr>)])]\<rparr>
       True False False"

text \<open>Unfolding rules that evaluate the model on a concrete input.\<close>

lemmas model_defs =
  patcher_def get_deleted_def assemble_def initial_assembly_def carry_over_def post_assembly_def
  translate_stereo_def translate_atom_def translate_bond_def set_stereo_def finalize_def
  init_def get_truthy_def place_def place_matched_def existing_atom_def fresh_atom_def
  set_bond_def host_bond_stereo_def copy_atom_def copy_bond_def new_element_def new_bond_def
  neighbours_def patch_atom.simps

lemmas demo_defs =
  demo_externals_def others_def pick_def double_bonds_def carbon_def single_def
  labelled_double_def butene_def one_atom_reactor_def double_bond_reactor_def

section \<open>Notions used to state the properties of the assembly\<close>

text \<open>
  The two kinds of template atom the atom loop refuses when they have no matched atom:
  an \<^verbatim>\<open>AnyElement\<close>, and a query element with more than one hydrogen count.
\<close>

definition is_any :: "template_atom \<Rightarrow> bool" where
  "is_any ra = (case ra of AnyElement c r s \<Rightarrow> True | _ \<Rightarrow> False)"

definition many_hydrogens :: "template_atom \<Rightarrow> bool" where
  "many_hydrogens ra = (case ra of QueryElement z isot c r s hs \<Rightarrow> 1 < length hs | _ \<Rightarrow> False)"

text \<open>
  The atom lines 86--122 store for a template atom matched to the host atom \<open>sa\<close>, the
  atom they store for one without a matched atom, and the marking of lines 94--95 and
  121--122, written out once for the three classes of template atom.
\<close>

fun matched_atom :: "template_atom \<Rightarrow> atom \<Rightarrow> atom" where
  "matched_atom (AnyElement c r s) sa =
     (let a = (copy_atom False False sa)\<lparr>charge := c, is_radical := r\<rparr>
      in if s \<noteq> None then a\<lparr>stereo := s\<rparr> else a)"
| "matched_atom (QueryElement z isot c r s hs) sa =
     (let a = (new_element z isot c r)\<lparr>atom_x := atom_x sa, atom_y := atom_y sa\<rparr>
      in if s \<noteq> None then a\<lparr>stereo := s\<rparr> else a)"
| "matched_atom (Element z isot c r s h px py) sa =
     (let a = (new_element z isot c r)\<lparr>atom_x := atom_x sa, atom_y := atom_y sa\<rparr>
      in if s \<noteq> None then a\<lparr>stereo := s\<rparr> else a)"

fun inserted_atom :: "template_atom \<Rightarrow> atom" where
  "inserted_atom (AnyElement c r s) = new_element 0 None c r"
| "inserted_atom (QueryElement z isot c r s hs) =
     (let a = (new_element z isot c r)\<lparr>stereo := s\<rparr>
      in if length hs = 1 then a\<lparr>implicit_hydrogens := Some (hd hs)\<rparr> else a)"
| "inserted_atom (Element z isot c r s h px py) =
     (new_element z isot c r)\<lparr>stereo := s, implicit_hydrogens := h, atom_x := px, atom_y := py\<rparr>"

definition mark_atom :: "template_atom \<Rightarrow> atom \<Rightarrow> atom_id \<Rightarrow> assembly \<Rightarrow> assembly" where
  "mark_atom ra sa m st =
     (if ra_stereo ra = None \<and> stereo sa \<noteq> None
      then st\<lparr>stereo_atoms := stereo_atoms st @ [m]\<rparr> else st)"

text \<open>
  What the atom loop keeps true: \<^verbatim>\<open>max_atom\<close> never falls below the largest host
  identifier \<open>hmax\<close>, the keys of \<^verbatim>\<open>natoms\<close> are distinct, and an atom stored under a
  host identifier has no hydrogen count yet.
\<close>

definition hydrogens_open :: "nat \<Rightarrow> assembly \<Rightarrow> bool" where
  "hydrogens_open hmax st \<longleftrightarrow>
     hmax \<le> max_atom st \<and> distinct (map fst (natoms st)) \<and>
     (\<forall>m a. map_of (natoms st) m = Some a \<longrightarrow> m \<le> hmax \<longrightarrow> implicit_hydrogens a = None)"

text \<open>
  A reactor whose replacement inserts a new oxygen atom (template atom 1) and then has
  an \<^verbatim>\<open>AnyElement\<close> (template atom 2); against an empty mapping the first is
  allocated and the second is refused.
\<close>

definition insertion_reactor :: reactor where
  "insertion_reactor =
     init [] \<lparr>t_atoms = [(1, Element 8 None 0 False None (Some 2) 1 1), (2, AnyElement 0 False None)],
              t_bonds = [(1, []), (2, [])]\<rparr> True False False"

section \<open>Notions used to state the atom set of the output\<close>





section \<open>Notions used to state the properties of the stereo labels\<close>



text \<open>The stereo label of an atom of a container, \<open>None\<close> when it has none.\<close>

definition label_of :: "molecule \<Rightarrow> atom_id \<Rightarrow> bool option" where
  "label_of g n = (case map_of (atoms g) n of None \<Rightarrow> None | Some a \<Rightarrow> stereo a)"






section \<open>Notions used to state when the patcher raises\<close>








section \<open>Properties of \<^verbatim>\<open>_get_deleted\<close>\<close>





























section \<open>The cis/trans pass and the last step\<close>

lemma translate_bond_same: "translate_bond ext structure new0 nm g = Inr g' \<Longrightarrow> g' = g"
  by (auto simp: translate_bond_def Let_def split: option.splits if_splits)

lemma translate_bonds_unchanged:
  "translate_bonds ext structure new0 marked g = Inr g' \<Longrightarrow> g' = g"
proof (induction marked arbitrary: g)
  case Nil
  then show ?case by simp
next
  case (Cons nm marked)
  from Cons.prems obtain g1 where
    one: "translate_bond ext structure new0 nm g = Inr g1"
    and rest: "translate_bonds ext structure new0 marked g1 = Inr g'"
    by (auto split: sum.splits)
  from translate_bond_same[OF one] Cons.IH[OF rest] show ?case by simp
qed

text \<open>
  Claim C2 (the code does not do what the claim says). The loop of lines 186--191 calls
  \<^verbatim>\<open>_translate_cis_trans_sign\<close> and drops its result: whatever the marked pairs, the
  terminals and the sign the routine returns, the pass hands back the container it was
  given, so a marked bond keeps the absent label it was copied with.
\<close>

theorem translate_bonds_same:
  "translate_bonds ext structure new0 marked g = Inr g' \<Longrightarrow> g' = g"
  by (rule translate_bonds_unchanged)

text \<open>
  But-2-ene with the pair \<open>(2, 3)\<close> marked: the terminals of the double bond are the
  same in the old and the new graph, the routine returns the sign \<open>True\<close>, and the new
  bond still has no label.
\<close>

theorem translate_bonds_same_witness:
  "translate_bonds (demo_externals False) butene (butene\<lparr>bonds := map (\<lambda>(n, row). (n, map (\<lambda>(m, b). (m, copy_bond False b)) row)) (bonds butene)\<rparr>) [(2, 3)]
     (butene\<lparr>bonds := map (\<lambda>(n, row). (n, map (\<lambda>(m, b). (m, copy_bond False b)) row)) (bonds butene)\<rparr>)
   = Inr (butene\<lparr>bonds := map (\<lambda>(n, row). (n, map (\<lambda>(m, b). (m, copy_bond False b)) row)) (bonds butene)\<rparr>) \<and>
   translate_cis_trans_sign (demo_externals False) butene (2, 3) [Some 1, Some 4] (Some True) \<and>
   host_bond_stereo (bonds (butene\<lparr>bonds := map (\<lambda>(n, row). (n, map (\<lambda>(m, b). (m, copy_bond False b)) row)) (bonds butene)\<rparr>)) 2 3 = None"
proof -
  let ?new = "butene\<lparr>bonds := map (\<lambda>(n, row). (n, map (\<lambda>(m, b). (m, copy_bond False b)) row)) (bonds butene)\<rparr>"
  obtain r where r: "translate_bonds (demo_externals False) butene ?new [(2, 3)] ?new = Inr r"
    by (simp add: model_defs demo_defs)
  from translate_bonds_same[OF r] r
  have "translate_bonds (demo_externals False) butene ?new [(2, 3)] ?new = Inr ?new" by simp
  moreover have "translate_cis_trans_sign (demo_externals False) butene (2, 3) [Some 1, Some 4] (Some True)"
    by (simp add: demo_defs)
  moreover have "host_bond_stereo (bonds ?new) 2 3 = None"
    by (simp add: model_defs demo_defs)
  ultimately show ?thesis by blast
qed

text \<open>
  Claim C7 (the code does not do what the claim says). The replacement is the double
  bond of but-2-ene itself, matched on atoms 2 and 3, with nothing deleted: the patch
  succeeds, and the cis/trans label of the host bond is absent from the output.
\<close>

theorem identity_patch_drops_bond_label:
  "host_bond_stereo (bonds butene) 2 3 = Some True \<and>
   (case fst (patcher (demo_externals False) double_bond_reactor butene [(1, 2), (2, 3)]) of
      Inl e \<Rightarrow> False
    | Inr g \<Rightarrow> host_bond_stereo (bonds g) 2 3 = None \<and> host_bond_stereo (bonds g) 3 2 = None)"
  by (simp add: model_defs demo_defs)

text \<open>
  Claim C3, as stated, fails: with \<^verbatim>\<open>fix_rings\<close> set and a \<^verbatim>\<open>thiele\<close> that reports an
  aromatized ring, \<^verbatim>\<open>fix_stereo\<close> is not called.
\<close>

theorem finalize_fix_stereo_counterexample:
  "\<not> (FixStereo \<in> set (snd (finalize (demo_externals True) True False butene))
        \<longleftrightarrow> snd (thiele (demo_externals True) False (kekule (demo_externals True) butene)))"
  by (simp add: finalize_def demo_externals_def)

text \<open>
  Claim C3, amended. With \<^verbatim>\<open>fix_rings\<close> set the patcher calls \<^verbatim>\<open>kekule\<close>, then
  \<^verbatim>\<open>thiele(fix_tautomers)\<close>, and calls \<^verbatim>\<open>fix_stereo\<close> exactly when \<^verbatim>\<open>thiele\<close> reports
  that it aromatized no ring; without \<^verbatim>\<open>fix_rings\<close> it calls \<^verbatim>\<open>fix_stereo\<close> only.
\<close>

theorem finalize_calls:
  "(fix_r \<longrightarrow>
      take 2 (snd (finalize ext fix_r fix_t g)) = [Kekule, Thiele fix_t] \<and>
      (FixStereo \<in> set (snd (finalize ext fix_r fix_t g))
         \<longleftrightarrow> \<not> snd (thiele ext fix_t (kekule ext g))) \<and>
      length (snd (finalize ext fix_r fix_t g)) \<le> 3 \<and>
      fst (finalize ext fix_r fix_t g) =
        (if snd (thiele ext fix_t (kekule ext g)) then fst (thiele ext fix_t (kekule ext g))
         else fix_stereo ext (fst (thiele ext fix_t (kekule ext g))))) \<and>
   (\<not> fix_r \<longrightarrow> finalize ext fix_r fix_t g = (fix_stereo ext g, [FixStereo]))"
  by (simp add: finalize_def Let_def split: prod.splits)

theorem finalize_calls_witness:
  "take 2 (snd (finalize (demo_externals False) True True butene)) = [Kekule, Thiele True] \<and>
   FixStereo \<in> set (snd (finalize (demo_externals False) True True butene)) \<and>
   FixStereo \<notin> set (snd (finalize (demo_externals True) True True butene)) \<and>
   finalize (demo_externals True) False True butene = (butene, [FixStereo])"
  using finalize_calls[of True "demo_externals False" True butene]
    finalize_calls[of True "demo_externals True" True butene]
    finalize_calls[of False "demo_externals True" True butene]
  by (simp add: demo_externals_def)

section \<open>Properties of the assembly\<close>

lemma patch_atom_total:
  "patch_atom ats n ra st =
     (case get_truthy (cur_mapping st) n of
        None \<Rightarrow>
          if is_any ra then Inl (ValueError_AnyElement, cur_mapping st)
          else if many_hydrogens ra then Inl (ValueError_hydrogens, cur_mapping (fresh_atom n st))
          else Inr (place (max_atom st + 1) (inserted_atom ra) (fresh_atom n st))
      | Some m \<Rightarrow>
          (case map_of ats m of
             None \<Rightarrow> Inl (KeyError, cur_mapping st)
           | Some sa \<Rightarrow> Inr (place m (matched_atom ra sa) (mark_atom ra sa m st))))"
proof (cases ra)
  case (AnyElement c r s)
  then show ?thesis
    by (auto simp: place_matched_def mark_atom_def is_any_def Let_def split: option.splits)
next
  case (QueryElement z isot c r s hs)
  then show ?thesis
    by (cases hs)
       (auto simp: existing_atom_def place_matched_def mark_atom_def
          fresh_atom_def is_any_def many_hydrogens_def Let_def
        split: option.splits)
next
  case (Element z isot c r s h px py)
  then show ?thesis
    by (auto simp: existing_atom_def place_matched_def mark_atom_def
          fresh_atom_def is_any_def many_hydrogens_def Let_def
        split: option.splits)
qed

lemma matched_atom_hydrogens [simp]: "implicit_hydrogens (matched_atom ra sa) = None"
  by (cases ra) (simp_all add: copy_atom_def new_element_def Let_def)

lemma matched_atom_stereo [simp]: "stereo (matched_atom ra sa) = ra_stereo ra"
  by (cases ra) (auto simp add: copy_atom_def new_element_def Let_def)

declare patch_atom.simps [simp del]

lemma get_truthy_update:
  "get_truthy (AList.update n v mp) k =
     (if k = n then (if v = 0 then None else Some v) else get_truthy mp k)"
  by (simp add: get_truthy_def update_conv')

lemma get_truthy_Some: "get_truthy mp n = Some m \<Longrightarrow> map_of mp n = Some m \<and> m \<noteq> 0"
  by (auto simp: get_truthy_def split: option.splits if_splits)

lemma fresh_atom_fields [simp]:
  "cur_mapping (fresh_atom n st) = AList.update n (max_atom st + 1) (cur_mapping st)"
  "max_atom (fresh_atom n st) = max_atom st + 1"
  "natoms (fresh_atom n st) = natoms st" "nbonds (fresh_atom n st) = nbonds st"
  "stereo_atoms (fresh_atom n st) = stereo_atoms st" "stereo_bonds (fresh_atom n st) = stereo_bonds st"
  by (simp_all add: fresh_atom_def)

lemma place_fields [simp]:
  "cur_mapping (place m a st) = cur_mapping st" "max_atom (place m a st) = max_atom st"
  "natoms (place m a st) = AList.update m a (natoms st)"
  "nbonds (place m a st) = AList.update m [] (nbonds st)"
  "stereo_atoms (place m a st) = stereo_atoms st" "stereo_bonds (place m a st) = stereo_bonds st"
  by (simp_all add: place_def)

lemma mark_atom_fields [simp]:
  "cur_mapping (mark_atom ra sa m st) = cur_mapping st" "max_atom (mark_atom ra sa m st) = max_atom st"
  "natoms (mark_atom ra sa m st) = natoms st" "nbonds (mark_atom ra sa m st) = nbonds st"
  "stereo_bonds (mark_atom ra sa m st) = stereo_bonds st"
  by (simp_all add: mark_atom_def)

text \<open>An entry of the mapping that counts as present is never changed.\<close>

lemma patch_atom_keeps:
  assumes "patch_atom ats n ra st = Inr st'" and "get_truthy (cur_mapping st) k = Some m"
  shows "get_truthy (cur_mapping st') k = Some m"
  using assms
  by (auto simp: patch_atom_total get_truthy_update split: option.splits if_splits)

lemma patch_atom_max: "patch_atom ats n ra st = Inr st' \<Longrightarrow> max_atom st \<le> max_atom st'"
  by (auto simp: patch_atom_total split: option.splits if_splits)

lemma patch_atom_error_keeps:
  assumes "patch_atom ats n ra st = Inl (e, mp)" and "get_truthy (cur_mapping st) k = Some m"
  shows "get_truthy mp k = Some m"
  using assms
  by (auto simp: patch_atom_total get_truthy_update split: option.splits if_splits)

lemma atoms_loop_keeps:
  "atoms_loop ats tas st = Inr st' \<Longrightarrow> get_truthy (cur_mapping st) k = Some m
     \<Longrightarrow> get_truthy (cur_mapping st') k = Some m"
proof (induction tas arbitrary: st)
  case Nil
  then show ?case by simp
next
  case (Cons t tas)
  obtain n ra where t: "t = (n, ra)" by (cases t)
  from Cons.prems(1) t obtain st1 where
    one: "patch_atom ats n ra st = Inr st1" and rest: "atoms_loop ats tas st1 = Inr st'"
    by (auto split: sum.splits)
  from Cons.IH[OF rest patch_atom_keeps[OF one Cons.prems(2)]] show ?case .
qed

lemma atoms_loop_max: "atoms_loop ats tas st = Inr st' \<Longrightarrow> max_atom st \<le> max_atom st'"
proof (induction tas arbitrary: st)
  case Nil
  then show ?case by simp
next
  case (Cons t tas)
  obtain n ra where t: "t = (n, ra)" by (cases t)
  from Cons.prems(1) t obtain st1 where
    one: "patch_atom ats n ra st = Inr st1" and rest: "atoms_loop ats tas st1 = Inr st'"
    by (auto split: sum.splits)
  from Cons.IH[OF rest] patch_atom_max[OF one] show ?case by simp
qed

text \<open>
  After its pass, a template atom has an entry in the mapping; if it had none before the
  loop, the entry is an identifier allocated by the loop.
\<close>

lemma patch_atom_entry:
  assumes "patch_atom ats n ra st = Inr st'"
  shows "\<exists>m. get_truthy (cur_mapping st') n = Some m \<and> m \<in> fst ` set (natoms st') \<and>
             (get_truthy (cur_mapping st) n = None \<longrightarrow> m = max_atom st + 1 \<and> max_atom st' = m)"
  using assms
  by (auto simp: patch_atom_total get_truthy_update dom_update split: option.splits if_splits)

lemma atoms_loop_entry:
  "atoms_loop ats tas st = Inr st' \<Longrightarrow> (k, ka) \<in> set tas \<Longrightarrow>
     \<exists>m. get_truthy (cur_mapping st') k = Some m \<and>
         (get_truthy (cur_mapping st) k = None \<longrightarrow> max_atom st < m \<and> m \<le> max_atom st')"
proof (induction tas arbitrary: st)
  case Nil
  then show ?case by simp
next
  case (Cons t tas)
  obtain n ra where t: "t = (n, ra)" by (cases t)
  from Cons.prems(1) t obtain st1 where
    one: "patch_atom ats n ra st = Inr st1" and rest: "atoms_loop ats tas st1 = Inr st'"
    by (auto split: sum.splits)
  from patch_atom_entry[OF one] obtain m1 where
    m1: "get_truthy (cur_mapping st1) n = Some m1"
    "get_truthy (cur_mapping st) n = None \<longrightarrow> m1 = max_atom st + 1 \<and> max_atom st1 = m1"
    by auto
  note mx = patch_atom_max[OF one] atoms_loop_max[OF rest]
  show ?case
  proof (cases "k = n")
    case True
    from atoms_loop_keeps[OF rest m1(1)] m1(2) mx True show ?thesis by auto
  next
    case False
    with Cons.prems(2) t have "(k, ka) \<in> set tas" by auto
    from Cons.IH[OF rest this] obtain m where
      m: "get_truthy (cur_mapping st') k = Some m"
      "get_truthy (cur_mapping st1) k = None \<longrightarrow> max_atom st1 < m \<and> m \<le> max_atom st'"
      by auto
    have "get_truthy (cur_mapping st1) k = get_truthy (cur_mapping st) k"
      using one False
      by (auto simp: patch_atom_total get_truthy_update split: option.splits if_splits)
    with m mx show ?thesis by auto
  qed
qed

lemma atoms_loop_append:
  "atoms_loop ats (pre @ post) st =
     (case atoms_loop ats pre st of Inl e \<Rightarrow> Inl e | Inr st1 \<Rightarrow> atoms_loop ats post st1)"
  by (induction pre arbitrary: st) (auto split: sum.splits)

subsection \<open>What the loops over bonds and over the host atoms leave alone\<close>

lemma set_bond_keys:
  assumes "set_bond n m b nb = Inr nb'"
  shows "fst ` set nb' = fst ` set nb"
proof -
  from assms obtain row where row: "map_of nb n = Some row"
    and nb': "nb' = AList.update n (AList.update m b row) nb"
    by (cases "map_of nb n") (simp_all add: set_bond_def)
  from row have "n \<in> fst ` set nb" by (metis fst_conv image_eqI map_of_SomeD)
  then show ?thesis by (auto simp: nb' dom_update)
qed

lemma patch_bonds_row_step:
  assumes "patch_bonds_row bs n ((m0, rb) # row) st = Inr st'"
  obtains m b nb sbs where "map_of (cur_mapping st) m0 = Some m"
    and "set_bond n m b (nbonds st) = Inr nb"
    and "patch_bonds_row bs n row (st\<lparr>nbonds := nb, stereo_bonds := sbs\<rparr>) = Inr st'"
proof -
  from assms obtain m where m: "map_of (cur_mapping st) m0 = Some m"
    by (cases "map_of (cur_mapping st) m0") simp_all
  with assms obtain mrow where mrow: "map_of (nbonds st) m = Some mrow"
    by (cases "map_of (nbonds st) m") simp_all
  show ?thesis
  proof (cases "map_of mrow n")
    case (Some linked)
    with assms m mrow obtain nb where nb: "set_bond n m linked (nbonds st) = Inr nb"
      by (cases "set_bond n m linked (nbonds st)") simp_all
    with assms m mrow Some
    have "patch_bonds_row bs n row (st\<lparr>nbonds := nb, stereo_bonds := stereo_bonds st\<rparr>) = Inr st'"
      by simp
    from that[OF m nb this] show ?thesis .
  next
    case None
    let ?b = "(new_bond (tb_order rb))\<lparr>bond_stereo := tb_stereo rb\<rparr>"
    from assms m mrow None obtain nb where nb: "set_bond n m ?b (nbonds st) = Inr nb"
      by (cases "set_bond n m ?b (nbonds st)") simp_all
    show ?thesis
    proof (cases "tb_stereo rb = None \<and> host_bond_stereo bs n m \<noteq> None")
      case True
      with assms m mrow None nb
      have "patch_bonds_row bs n row (st\<lparr>nbonds := nb, stereo_bonds := stereo_bonds st @ [(n, m)]\<rparr>) = Inr st'"
        by simp
      from that[OF m nb this] show ?thesis .
    next
      case False
      with assms m mrow None nb
      have "patch_bonds_row bs n row (st\<lparr>nbonds := nb, stereo_bonds := stereo_bonds st\<rparr>) = Inr st'"
        by auto
      from that[OF m nb this] show ?thesis .
    qed
  qed
qed

lemma patch_bonds_row_frame:
  "patch_bonds_row bs n row st = Inr st' \<Longrightarrow>
     natoms st' = natoms st \<and> cur_mapping st' = cur_mapping st \<and> max_atom st' = max_atom st \<and>
     stereo_atoms st' = stereo_atoms st \<and> fst ` set (nbonds st') = fst ` set (nbonds st)"
proof (induction row arbitrary: st)
  case Nil
  then show ?case by simp
next
  case (Cons e row)
  obtain m0 rb where e: "e = (m0, rb)" by (cases e)
  from Cons.prems[unfolded e] obtain m b nb sbs where
    sb: "set_bond n m b (nbonds st) = Inr nb"
    and rest: "patch_bonds_row bs n row (st\<lparr>nbonds := nb, stereo_bonds := sbs\<rparr>) = Inr st'"
    by (rule patch_bonds_row_step)
  from Cons.IH[OF rest] set_bond_keys[OF sb] show ?case by simp
qed

lemma patch_bonds_frame:
  "patch_bonds bs tbs st = Inr st' \<Longrightarrow>
     natoms st' = natoms st \<and> cur_mapping st' = cur_mapping st \<and> max_atom st' = max_atom st \<and>
     stereo_atoms st' = stereo_atoms st \<and> fst ` set (nbonds st') = fst ` set (nbonds st)"
proof (induction tbs arbitrary: st)
  case Nil
  then show ?case by simp
next
  case (Cons e tbs)
  obtain n0 row where e: "e = (n0, row)" by (cases e)
  from Cons.prems e obtain n st1 where
    one: "patch_bonds_row bs n row st = Inr st1" and rest: "patch_bonds bs tbs st1 = Inr st'"
    by (auto split: option.splits sum.splits)
  from patch_bonds_row_frame[OF one] Cons.IH[OF rest] show ?case by simp
qed

lemma carry_bonds_row_step:
  assumes "carry_bonds_row pa td n ((m, b) # row) st = Inr st'"
    and "\<not> (m \<in> td \<or> (n \<in> pa \<and> m \<in> pa))"
  obtains b' nb sbs where "set_bond n m b' (nbonds st) = Inr nb"
    and "carry_bonds_row pa td n row (st\<lparr>nbonds := nb, stereo_bonds := sbs\<rparr>) = Inr st'"
proof -
  from assms obtain mrow where mrow: "map_of (nbonds st) m = Some mrow"
    by (cases "map_of (nbonds st) m") simp_all
  show ?thesis
  proof (cases "map_of mrow n")
    case (Some linked)
    with assms mrow obtain nb where nb: "set_bond n m linked (nbonds st) = Inr nb"
      by (cases "set_bond n m linked (nbonds st)") simp_all
    with assms mrow Some
    have "carry_bonds_row pa td n row (st\<lparr>nbonds := nb, stereo_bonds := stereo_bonds st\<rparr>) = Inr st'"
      by simp
    from that[OF nb this] show ?thesis .
  next
    case None
    show ?thesis
    proof (cases "bond_stereo b \<noteq> None \<and> (n \<in> pa \<or> m \<in> pa)")
      case True
      with assms mrow None obtain nb where nb: "set_bond n m (copy_bond False b) (nbonds st) = Inr nb"
        by (cases "set_bond n m (copy_bond False b) (nbonds st)") simp_all
      with assms mrow None True
      have "carry_bonds_row pa td n row (st\<lparr>nbonds := nb, stereo_bonds := stereo_bonds st @ [(n, m)]\<rparr>) = Inr st'"
        by simp
      from that[OF nb this] show ?thesis .
    next
      case False
      with assms mrow None obtain nb where nb: "set_bond n m (copy_bond True b) (nbonds st) = Inr nb"
        by (cases "set_bond n m (copy_bond True b) (nbonds st)") auto
      with assms mrow None False
      have "carry_bonds_row pa td n row (st\<lparr>nbonds := nb, stereo_bonds := stereo_bonds st\<rparr>) = Inr st'"
        by auto
      from that[OF nb this] show ?thesis .
    qed
  qed
qed

lemma carry_bonds_row_frame:
  "carry_bonds_row pa td n row st = Inr st' \<Longrightarrow>
     natoms st' = natoms st \<and> cur_mapping st' = cur_mapping st \<and> max_atom st' = max_atom st \<and>
     stereo_atoms st' = stereo_atoms st \<and> fst ` set (nbonds st') = fst ` set (nbonds st)"
proof (induction row arbitrary: st)
  case Nil
  then show ?case by simp
next
  case (Cons e row)
  obtain m b where e: "e = (m, b)" by (cases e)
  show ?case
  proof (cases "m \<in> td \<or> (n \<in> pa \<and> m \<in> pa)")
    case True
    with Cons.prems e have "carry_bonds_row pa td n row st = Inr st'" by simp
    from Cons.IH[OF this] show ?thesis .
  next
    case False
    from Cons.prems[unfolded e] False obtain b' nb sbs where
      sb: "set_bond n m b' (nbonds st) = Inr nb"
      and rest: "carry_bonds_row pa td n row (st\<lparr>nbonds := nb, stereo_bonds := sbs\<rparr>) = Inr st'"
      by (rule carry_bonds_row_step)
    from Cons.IH[OF rest] set_bond_keys[OF sb] show ?thesis by simp
  qed
qed

lemma carry_bonds_frame:
  "carry_bonds pa td bs st = Inr st' \<Longrightarrow>
     natoms st' = natoms st \<and> cur_mapping st' = cur_mapping st \<and> max_atom st' = max_atom st \<and>
     stereo_atoms st' = stereo_atoms st \<and> fst ` set (nbonds st') = fst ` set (nbonds st)"
proof (induction bs arbitrary: st)
  case Nil
  then show ?case by simp
next
  case (Cons e bs)
  obtain n row where e: "e = (n, row)" by (cases e)
  show ?case
  proof (cases "n \<in> td")
    case True
    with Cons.prems e have "carry_bonds pa td bs st = Inr st'" by simp
    from Cons.IH[OF this] show ?thesis .
  next
    case False
    with Cons.prems e obtain st1 where
      one: "carry_bonds_row pa td n row st = Inr st1" and rest: "carry_bonds pa td bs st1 = Inr st'"
      by (auto split: sum.splits)
    from carry_bonds_row_frame[OF one] Cons.IH[OF rest] show ?thesis by simp
  qed
qed




lemma carry_atoms_patched:
  "m \<in> pa \<Longrightarrow> map_of (natoms (carry_atoms pa td ats st)) m = map_of (natoms st) m"
  by (induction ats arbitrary: st) (auto simp: update_conv')

lemma carry_atoms_copies:
  "map_of (natoms (carry_atoms pa td ats st)) m = Some a \<Longrightarrow>
     map_of (natoms st) m = Some a \<or>
     (m \<notin> pa \<and> m \<notin> td \<and> (\<exists>sa. (m, sa) \<in> set ats \<and> a = copy_atom True True sa))"
proof (induction ats arbitrary: st)
  case Nil
  then show ?case by simp
next
  case (Cons e ats)
  obtain n sa where e: "e = (n, sa)" by (cases e)
  show ?case
  proof (cases "n \<notin> pa \<and> n \<notin> td")
    case True
    with Cons.prems e
    have "map_of (natoms (carry_atoms pa td ats (place n (copy_atom True True sa) st))) m = Some a"
      by simp
    from Cons.IH[OF this] True e show ?thesis
      by (auto simp: update_conv' split: if_splits)
  next
    case False
    with Cons.prems e have "map_of (natoms (carry_atoms pa td ats st)) m = Some a" by auto
    from Cons.IH[OF this] e show ?thesis by auto
  qed
qed

lemma assemble_stages:
  assumes "assemble self structure mapping td = Inr st"
  obtains st1 st2 where "atoms structure \<noteq> []"
    and "atoms_loop (atoms structure) (t_atoms (replacement self))
           (initial_assembly structure mapping) = Inr st1"
    and "patch_bonds (bonds structure) (t_bonds (replacement self)) st1 = Inr st2"
    and "carry_over structure td st2 = Inr st"
proof -
  from assms have ne: "atoms structure \<noteq> []" by (auto simp: assemble_def split: if_splits)
  with assms obtain st1 where 1: "atoms_loop (atoms structure) (t_atoms (replacement self))
           (initial_assembly structure mapping) = Inr st1"
    by (cases "atoms_loop (atoms structure) (t_atoms (replacement self))
           (initial_assembly structure mapping)") (auto simp: assemble_def)
  with assms ne obtain st2 where 2: "patch_bonds (bonds structure) (t_bonds (replacement self)) st1 = Inr st2"
    by (cases "patch_bonds (bonds structure) (t_bonds (replacement self)) st1") (auto simp: assemble_def)
  with assms ne 1 have 3: "carry_over structure td st2 = Inr st"
    by (cases "carry_over structure td st2") (auto simp: assemble_def)
  from that[OF ne 1 2 3] show ?thesis .
qed

subsection \<open>The atoms placed by the atom loop\<close>

lemma patch_atom_keys:
  assumes "patch_atom ats n ra st = Inr st'"
  shows "\<exists>m. get_truthy (cur_mapping st') n = Some m \<and>
             fst ` set (natoms st') = insert m (fst ` set (natoms st)) \<and>
             fst ` set (nbonds st') = insert m (fst ` set (nbonds st))"
  using assms
  by (auto simp: patch_atom_total get_truthy_update dom_update split: option.splits if_splits)

lemma atoms_loop_keys:
  "atoms_loop ats tas st = Inr st' \<Longrightarrow>
     fst ` set (natoms st') =
       fst ` set (natoms st) \<union> {m. \<exists>n\<in>fst ` set tas. get_truthy (cur_mapping st') n = Some m} \<and>
     fst ` set (nbonds st') =
       fst ` set (nbonds st) \<union> {m. \<exists>n\<in>fst ` set tas. get_truthy (cur_mapping st') n = Some m}"
proof (induction tas arbitrary: st)
  case Nil
  then show ?case by simp
next
  case (Cons t tas)
  obtain n ra where t: "t = (n, ra)" by (cases t)
  from Cons.prems(1) t obtain st1 where
    one: "patch_atom ats n ra st = Inr st1" and rest: "atoms_loop ats tas st1 = Inr st'"
    by (auto split: sum.splits)
  from patch_atom_keys[OF one] obtain m where
    m: "get_truthy (cur_mapping st1) n = Some m"
    "fst ` set (natoms st1) = insert m (fst ` set (natoms st))"
    "fst ` set (nbonds st1) = insert m (fst ` set (nbonds st))"
    by auto
  from atoms_loop_keeps[OF rest m(1)] have m': "get_truthy (cur_mapping st') n = Some m" .
  from Cons.IH[OF rest] m(2,3) m' show ?case
    by (auto simp: t)
qed

lemma patch_atom_hydrogens_open:
  assumes "patch_atom ats n ra st = Inr st'" and "hydrogens_open hmax st"
  shows "hydrogens_open hmax st'"
  using assms
  by (auto simp: patch_atom_total hydrogens_open_def update_conv' distinct_update
      split: option.splits if_splits)

lemma atoms_loop_hydrogens_open:
  "atoms_loop ats tas st = Inr st' \<Longrightarrow> hydrogens_open hmax st \<Longrightarrow> hydrogens_open hmax st'"
proof (induction tas arbitrary: st)
  case Nil
  then show ?case by simp
next
  case (Cons t tas)
  obtain n ra where t: "t = (n, ra)" by (cases t)
  from Cons.prems(1) t obtain st1 where
    one: "patch_atom ats n ra st = Inr st1" and rest: "atoms_loop ats tas st1 = Inr st'"
    by (auto split: sum.splits)
  from Cons.IH[OF rest patch_atom_hydrogens_open[OF one Cons.prems(2)]] show ?case .
qed

lemma patch_atom_in_host:
  "patch_atom ats n ra st = Inr st' \<Longrightarrow> get_truthy (cur_mapping st) n = Some m
     \<Longrightarrow> m \<in> fst ` set ats"
  by (auto simp: patch_atom_total split: option.splits if_splits)
     (metis fst_conv image_eqI map_of_SomeD)

lemma atoms_loop_in_host:
  "atoms_loop ats tas st = Inr st' \<Longrightarrow> (n, ra) \<in> set tas \<Longrightarrow>
     get_truthy (cur_mapping st) n = Some m \<Longrightarrow> m \<in> fst ` set ats"
proof (induction tas arbitrary: st)
  case Nil
  then show ?case by simp
next
  case (Cons t tas)
  obtain n' ra' where t: "t = (n', ra')" by (cases t)
  from Cons.prems(1) t obtain st1 where
    one: "patch_atom ats n' ra' st = Inr st1" and rest: "atoms_loop ats tas st1 = Inr st'"
    by (auto split: sum.splits)
  show ?case
  proof (cases "n' = n")
    case True
    with patch_atom_in_host[OF one] Cons.prems(3) show ?thesis by simp
  next
    case False
    with Cons.prems(2) t have "(n, ra) \<in> set tas" by auto
    from Cons.IH[OF rest this patch_atom_keeps[OF one Cons.prems(3)]] show ?thesis .
  qed
qed


lemma carry_atoms_distinct:
  "distinct (map fst (natoms st)) \<Longrightarrow> distinct (map fst (natoms (carry_atoms pa td ats st)))"
  by (induction ats arbitrary: st) (auto simp: distinct_update)

subsection \<open>The hydrogen loop\<close>

lemma calc_implicit_loop_bonds [simp]: "bonds (calc_implicit_loop ext ks g) = bonds g"
  by (induction ks arbitrary: g) (auto split: option.splits)

lemma calc_implicit_loop_keys [simp]:
  "fst ` set (atoms (calc_implicit_loop ext ks g)) = fst ` set (atoms g)"
proof (induction ks arbitrary: g)
  case Nil
  then show ?case by simp
next
  case (Cons k ks)
  show ?case
  proof (cases "map_of (atoms g) k")
    case None
    then show ?thesis by (simp add: Cons.IH)
  next
    case (Some a)
    then have "k \<in> fst ` set (atoms g)" by (metis fst_conv image_eqI map_of_SomeD)
    with Some show ?thesis by (auto simp: Cons.IH dom_update)
  qed
qed

lemma calc_implicit_loop_other:
  "m \<notin> set ks \<Longrightarrow> map_of (atoms (calc_implicit_loop ext ks g)) m = map_of (atoms g) m"
  by (induction ks arbitrary: g) (auto simp: update_conv' split: option.splits)

lemma calc_implicit_loop_at:
  "distinct ks \<Longrightarrow> m \<in> set ks \<Longrightarrow> map_of (atoms g) m = Some a \<Longrightarrow> implicit_hydrogens a = None \<Longrightarrow>
     map_of (atoms (calc_implicit_loop ext ks g)) m =
       Some (a\<lparr>implicit_hydrogens :=
                 calc_implicit ext (calc_implicit_loop ext (takeWhile (\<lambda>k. k \<noteq> m) ks) g) m\<rparr>)"
proof (induction ks arbitrary: g)
  case Nil
  then show ?case by simp
next
  case (Cons k ks)
  show ?case
  proof (cases "k = m")
    case True
    with Cons.prems have "m \<notin> set ks" by simp
    from calc_implicit_loop_other[OF this] True Cons.prems(3,4) show ?thesis
      by (simp add: update_conv')
  next
    case False
    let ?g1 = "case map_of (atoms g) k of None \<Rightarrow> g
        | Some a \<Rightarrow> if implicit_hydrogens a = None
            then g\<lparr>atoms := AList.update k (a\<lparr>implicit_hydrogens := calc_implicit ext g k\<rparr>) (atoms g)\<rparr>
            else g"
    have g1: "map_of (atoms ?g1) m = Some a"
      using False Cons.prems(3) by (auto simp: update_conv' split: option.splits)
    from Cons.prems False have "distinct ks" "m \<in> set ks" by auto
    from Cons.IH[OF this g1 Cons.prems(4)] False show ?thesis by simp
  qed
qed

section \<open>The atoms of the output\<close>









lemma init_fields [simp]:
  "replacement (init pattern repl d fr ft) = repl" "fix_rings (init pattern repl d fr ft) = fr"
  "fix_tautomers (init pattern repl d fr ft) = ft"
  by (simp_all add: init_def)






section \<open>The labels of the marked atoms\<close>









lemma calc_implicit_step_label:
  "label_of (case map_of (atoms g) k of None \<Rightarrow> g
      | Some a \<Rightarrow> if implicit_hydrogens a = None
          then g\<lparr>atoms := AList.update k (a\<lparr>implicit_hydrogens := h\<rparr>) (atoms g)\<rparr>
          else g) n = label_of g n"
  by (auto simp: label_of_def update_conv' split: option.splits)

lemma calc_implicit_loop_label [simp]: "label_of (calc_implicit_loop ext ks g) n = label_of g n"
proof (induction ks arbitrary: g)
  case Nil
  then show ?case by simp
next
  case (Cons k ks)
  show ?case
    unfolding calc_implicit_loop.simps Cons.IH by (rule calc_implicit_step_label)
qed





section \<open>When the patcher raises\<close>

subsection \<open>The deletion set of a well-formed call\<close>








subsection \<open>The three loops of the assembly\<close>











section \<open>Hydrogen counts and the caller's mapping\<close>

lemma initial_hydrogens_open:
  "hydrogens_open (Max (set (map fst (atoms structure)))) (initial_assembly structure mapping)"
  by (simp add: hydrogens_open_def initial_assembly_def)

lemma assemble_hydrogens_open:
  assumes "assemble self structure mapping td = Inr st"
  shows "distinct (map fst (natoms st))"
    and "map_of (natoms st) m = Some a \<Longrightarrow> implicit_hydrogens a \<noteq> None \<Longrightarrow>
           Max (set (map fst (atoms structure))) < m \<or>
           (\<exists>sa. (m, sa) \<in> set (atoms structure) \<and> a = copy_atom True True sa)"
proof -
  let ?hmax = "Max (set (map fst (atoms structure)))"
  from assms obtain st1 st2 where ne: "atoms structure \<noteq> []"
    and 1: "atoms_loop (atoms structure) (t_atoms (replacement self))
             (initial_assembly structure mapping) = Inr st1"
    and 2: "patch_bonds (bonds structure) (t_bonds (replacement self)) st1 = Inr st2"
    and 3: "carry_over structure td st2 = Inr st"
    by (rule assemble_stages)
  from atoms_loop_hydrogens_open[OF 1 initial_hydrogens_open]
  have h1: "hydrogens_open ?hmax st1" .
  from patch_bonds_frame[OF 2] have n2: "natoms st2 = natoms st1" by simp
  let ?pa = "set (map fst (natoms st2))"
  from 3 have c: "carry_bonds ?pa td (bonds structure) (carry_atoms ?pa td (atoms structure) st2) = Inr st"
    by (simp add: carry_over_def Let_def)
  from carry_bonds_frame[OF c]
  have n3: "natoms st = natoms (carry_atoms ?pa td (atoms structure) st2)" by simp
  show "distinct (map fst (natoms st))"
    unfolding n3 by (rule carry_atoms_distinct) (use h1 n2 in \<open>simp add: hydrogens_open_def\<close>)
  assume a: "map_of (natoms st) m = Some a" and h: "implicit_hydrogens a \<noteq> None"
  from a n3 have "map_of (natoms (carry_atoms ?pa td (atoms structure) st2)) m = Some a" by simp
  from carry_atoms_copies[OF this] h1 n2 h
  show "?hmax < m \<or> (\<exists>sa. (m, sa) \<in> set (atoms structure) \<and> a = copy_atom True True sa)"
    by (auto simp: hydrogens_open_def)
qed

lemma assemble_matched:
  assumes "assemble self structure mapping td = Inr st"
    and "(n, ra) \<in> set (t_atoms (replacement self))" and "get_truthy mapping n = Some m"
  shows "\<exists>a. map_of (natoms st) m = Some a \<and> implicit_hydrogens a = None"
proof -
  let ?hmax = "Max (set (map fst (atoms structure)))"
  from assms(1) obtain st1 st2 where ne: "atoms structure \<noteq> []"
    and 1: "atoms_loop (atoms structure) (t_atoms (replacement self))
             (initial_assembly structure mapping) = Inr st1"
    and 2: "patch_bonds (bonds structure) (t_bonds (replacement self)) st1 = Inr st2"
    and 3: "carry_over structure td st2 = Inr st"
    by (rule assemble_stages)
  have m0: "get_truthy (cur_mapping (initial_assembly structure mapping)) n = Some m"
    using assms(3) by (simp add: initial_assembly_def)
  from atoms_loop_in_host[OF 1 assms(2) m0] have mh: "m \<le> ?hmax" by simp
  from atoms_loop_keeps[OF 1 m0] atoms_loop_keys[OF 1] assms(2)
  have "m \<in> fst ` set (natoms st1)" by force
  then obtain a where a: "map_of (natoms st1) m = Some a"
    by (metis domD dom_map_of_conv_image_fst)
  from atoms_loop_hydrogens_open[OF 1 initial_hydrogens_open] a mh
  have ha: "implicit_hydrogens a = None" by (auto simp: hydrogens_open_def)
  from patch_bonds_frame[OF 2] have n2: "natoms st2 = natoms st1" by simp
  let ?pa = "set (map fst (natoms st2))"
  from 3 have c: "carry_bonds ?pa td (bonds structure) (carry_atoms ?pa td (atoms structure) st2) = Inr st"
    by (simp add: carry_over_def Let_def)
  from carry_bonds_frame[OF c]
  have n3: "natoms st = natoms (carry_atoms ?pa td (atoms structure) st2)" by simp
  have "m \<in> ?pa" using \<open>m \<in> fst ` set (natoms st1)\<close> n2 by simp
  from carry_atoms_patched[OF this] a n2 n3 have "map_of (natoms st) m = Some a" by simp
  with ha show ?thesis by blast
qed

text \<open>
  Claim C9. When the assembly succeeds, every template atom that has a matched host atom
  \<open>m\<close>, of whatever class, leaves the atom \<open>m\<close> of the new container without a
  hydrogen count, and the hydrogen loop sets that count to what \<^verbatim>\<open>calc_implicit\<close>
  returns for \<open>m\<close> on the container as the loop has it when it reaches \<open>m\<close>. An
  atom that leaves the assembly with a hydrogen count is either a newly allocated one
  (its identifier is above every host identifier) or a verbatim copy of a host atom.
\<close>

theorem matched_atoms_hydrogens:
  assumes "assemble self structure mapping to_delete = Inr st"
  shows "(\<forall>(n, ra)\<in>set (t_atoms (replacement self)). \<forall>m. get_truthy mapping n = Some m \<longrightarrow>
            (\<exists>a. map_of (natoms st) m = Some a \<and> implicit_hydrogens a = None \<and>
                 map_of (atoms (post_assembly ext st)) m =
                   Some (a\<lparr>implicit_hydrogens :=
                             calc_implicit ext
                               (calc_implicit_loop ext (takeWhile (\<lambda>k. k \<noteq> m) (map fst (natoms st)))
                                  \<lparr>atoms = natoms st, bonds = nbonds st\<rparr>) m\<rparr>))) \<and>
         (\<forall>m a. map_of (natoms st) m = Some a \<longrightarrow> implicit_hydrogens a \<noteq> None \<longrightarrow>
            Max (set (map fst (atoms structure))) < m \<or>
            (\<exists>sa. (m, sa) \<in> set (atoms structure) \<and> a = copy_atom True True sa))"
proof (intro conjI ballI allI impI)
  fix t m assume t: "t \<in> set (t_atoms (replacement self))"
  obtain n ra where nra: "t = (n, ra)" by (cases t)
  show "case t of (n, ra) \<Rightarrow> \<forall>m. get_truthy mapping n = Some m \<longrightarrow>
            (\<exists>a. map_of (natoms st) m = Some a \<and> implicit_hydrogens a = None \<and>
                 map_of (atoms (post_assembly ext st)) m =
                   Some (a\<lparr>implicit_hydrogens :=
                             calc_implicit ext
                               (calc_implicit_loop ext (takeWhile (\<lambda>k. k \<noteq> m) (map fst (natoms st)))
                                  \<lparr>atoms = natoms st, bonds = nbonds st\<rparr>) m\<rparr>))"
    unfolding nra prod.case
  proof (intro allI impI)
    fix m assume m: "get_truthy mapping n = Some m"
    from assemble_matched[OF assms t[unfolded nra] m] obtain a where
      a: "map_of (natoms st) m = Some a" "implicit_hydrogens a = None" by blast
    from a(1) have "m \<in> set (map fst (natoms st))"
      by (metis fst_conv image_eqI map_of_SomeD set_map)
    from calc_implicit_loop_at[OF assemble_hydrogens_open(1)[OF assms] this, of "\<lparr>atoms = natoms st, bonds = nbonds st\<rparr>" a ext] a
    show "\<exists>a. map_of (natoms st) m = Some a \<and> implicit_hydrogens a = None \<and>
                 map_of (atoms (post_assembly ext st)) m =
                   Some (a\<lparr>implicit_hydrogens :=
                             calc_implicit ext
                               (calc_implicit_loop ext (takeWhile (\<lambda>k. k \<noteq> m) (map fst (natoms st)))
                                  \<lparr>atoms = natoms st, bonds = nbonds st\<rparr>) m\<rparr>)"
      by (simp add: post_assembly_def)
  qed
next
  fix m a assume "map_of (natoms st) m = Some a" "implicit_hydrogens a \<noteq> None"
  from assemble_hydrogens_open(2)[OF assms this]
  show "Max (set (map fst (atoms structure))) < m \<or>
            (\<exists>sa. (m, sa) \<in> set (atoms structure) \<and> a = copy_atom True True sa)" .
qed

theorem matched_atoms_hydrogens_witness:
  "\<exists>st. assemble one_atom_reactor butene [(1, 2)] {} = Inr st \<and>
        (1, AnyElement 0 False None) \<in> set (t_atoms (replacement one_atom_reactor)) \<and>
        get_truthy [(1, 2)] 1 = Some 2 \<and>
        map_option implicit_hydrogens (map_of (atoms butene) 2) = Some (Some 1) \<and>
        map_option implicit_hydrogens (map_of (natoms st) 2) = Some None \<and>
        map_option implicit_hydrogens (map_of (atoms (post_assembly (demo_externals False) st)) 2)
          = Some (calc_implicit (demo_externals False)
                    (calc_implicit_loop (demo_externals False)
                       (takeWhile (\<lambda>k. k \<noteq> 2) (map fst (natoms st)))
                       \<lparr>atoms = natoms st, bonds = nbonds st\<rparr>) 2)"
proof -
  obtain st where st: "assemble one_atom_reactor butene [(1, 2)] {} = Inr st"
    by (simp add: model_defs demo_defs)
  have t: "(1, AnyElement 0 False None) \<in> set (t_atoms (replacement one_atom_reactor))"
    by (simp add: one_atom_reactor_def init_def)
  have g: "get_truthy [(1, 2)] 1 = Some 2" by (simp add: get_truthy_def)
  from matched_atoms_hydrogens[OF st, of "demo_externals False"] t g
  obtain a where "map_of (natoms st) 2 = Some a" "implicit_hydrogens a = None"
    "map_of (atoms (post_assembly (demo_externals False) st)) 2 =
       Some (a\<lparr>implicit_hydrogens := calc_implicit (demo_externals False)
                    (calc_implicit_loop (demo_externals False)
                       (takeWhile (\<lambda>k. k \<noteq> 2) (map fst (natoms st)))
                       \<lparr>atoms = natoms st, bonds = nbonds st\<rparr>) 2\<rparr>)"
    by fastforce
  moreover have "map_option implicit_hydrogens (map_of (atoms butene) 2) = Some (Some 1)"
    by (simp add: demo_defs)
  ultimately show ?thesis using st t g by auto
qed

text \<open>
  Claim C10. Let the atom loop pass the template atoms \<open>pre\<close> and raise at the next one.
  Then the call raises that error, the caller's mapping is left as it was when the error
  was raised, and every atom of \<open>pre\<close> that had no entry before the call has one now:
  an identifier above every host identifier, allocated by line 103 and never taken back.
\<close>

theorem mapping_extended_on_error:
  assumes "get_deleted self structure mapping = Inr to_delete"
    and "atoms structure \<noteq> []"
    and "t_atoms (replacement self) = pre @ (n, ra) # post"
    and "atoms_loop (atoms structure) pre (initial_assembly structure mapping) = Inr st1"
    and "patch_atom (atoms structure) n ra st1 = Inl (e, mp)"
    and "(k, ka) \<in> set pre" and "get_truthy mapping k = None"
  shows "patcher ext self structure mapping = (Inl e, mp) \<and>
         (\<exists>m. map_of mp k = Some m \<and> Max (set (map fst (atoms structure))) < m \<and>
              map_of mapping k \<noteq> Some m)"
proof -
  have "atoms_loop (atoms structure) (t_atoms (replacement self))
          (initial_assembly structure mapping) = Inl (e, mp)"
    using assms(3,4,5) by (simp add: atoms_loop_append)
  then have "assemble self structure mapping to_delete = Inl (e, mp)"
    using assms(2) by (simp add: assemble_def)
  then have p: "patcher ext self structure mapping = (Inl e, mp)"
    using assms(1) by (simp add: patcher_def)
  have k0: "get_truthy (cur_mapping (initial_assembly structure mapping)) k = None"
    using assms(7) by (simp add: initial_assembly_def)
  from atoms_loop_entry[OF assms(4,6)] k0 obtain m where
    m: "get_truthy (cur_mapping st1) k = Some m"
    "max_atom (initial_assembly structure mapping) < m" by auto
  from patch_atom_error_keeps[OF assms(5) m(1)] have "get_truthy mp k = Some m" .
  then have "map_of mp k = Some m" "m \<noteq> 0" using get_truthy_Some by blast+
  moreover have "map_of mapping k \<noteq> Some m"
    using assms(7) \<open>m \<noteq> 0\<close> by (auto simp: get_truthy_def split: option.splits if_splits)
  ultimately show ?thesis using p m(2) by (auto simp: initial_assembly_def)
qed

text \<open>
  The oxygen of \<open>insertion_reactor\<close> is allocated as atom 5 of but-2-ene before the
  \<^verbatim>\<open>AnyElement\<close> is refused: the call returns no graph and leaves \<^verbatim>\<open>{1: 5}\<close> in the
  mapping that was empty.
\<close>

theorem mapping_extended_on_error_witness:
  "patcher (demo_externals False) insertion_reactor butene []
     = (Inl ValueError_AnyElement, [(1, 5)]) \<and>
   get_truthy [] 1 = None \<and> map_of [(1, 5 :: nat)] (1 :: nat) = Some 5 \<and>
   Max (set (map fst (atoms butene))) < 5"
proof -
  let ?pre = "[(1, Element 8 None 0 False None (Some 2) 1 1)]"
  let ?st1 = "place 5 (inserted_atom (Element 8 None 0 False None (Some 2) 1 1))
                (fresh_atom 1 (initial_assembly butene []))"
  have d: "get_deleted insertion_reactor butene [] = Inr {}"
    by (simp add: get_deleted_def insertion_reactor_def init_def)
  have ne: "atoms butene \<noteq> []" by (simp add: butene_def)
  have t: "t_atoms (replacement insertion_reactor) = ?pre @ (2, AnyElement 0 False None) # []"
    by (simp add: insertion_reactor_def init_def)
  have l: "atoms_loop (atoms butene) ?pre (initial_assembly butene []) = Inr ?st1"
    by (simp add: patch_atom_total is_any_def many_hydrogens_def get_truthy_def
        initial_assembly_def butene_def)
  have p: "patch_atom (atoms butene) 2 (AnyElement 0 False None) ?st1
             = Inl (ValueError_AnyElement, [(1, 5)])"
    by (simp add: patch_atom_total is_any_def get_truthy_def initial_assembly_def butene_def)
  have k: "(1, Element 8 None 0 False None (Some 2) 1 1) \<in> set ?pre" by simp
  have g: "get_truthy [] 1 = None" by (simp add: get_truthy_def)
  from mapping_extended_on_error[OF d ne t l p k g, of "demo_externals False"]
  show ?thesis using g by (simp add: butene_def)
qed









section \<open>Errors of a patch application\<close>




end
